theory Spec2Isabelle
  imports Main
begin

section \<open>Container identities\<close>

text \<open>
  A \<open>ContainerID\<close> (protobuf message) has a label \<open>value()\<close> and an optional
  \<open>parent()\<close>, itself a \<open>ContainerID\<close>; \<open>has_parent()\<close> is \<open>parent \<noteq> None\<close>.
  A message none of whose fields is set has the empty label and no parent.
\<close>

datatype ContainerID = ContainerID (value': string) (parent: "ContainerID option")

definition has_parent :: "ContainerID \<Rightarrow> bool" where
  "has_parent containerId = (parent containerId \<noteq> None)"

type_synonym pid_t = int

text \<open>
  Assignment of messages. The assignment operator of a message is \<open>CopyFrom(from)\<close>:
  nothing when \<open>from\<close> is the target itself, otherwise \<open>Clear()\<close> of the target
  followed by \<open>MergeFrom(from)\<close>. \<open>Clear()\<close> unsets every field and clears the parent
  sub-message where it stands; \<open>MergeFrom(from)\<close> takes over the fields that are set in
  \<open>from\<close>, the parent by merging into the target's parent (created empty when there is
  none). The model has no has-bit for the label and takes the empty label for an unset
  one, which is exact for a target that has just been cleared.
\<close>

definition Clear :: "ContainerID \<Rightarrow> ContainerID" where
  "Clear m = ContainerID [] None"

fun MergeFrom :: "ContainerID \<Rightarrow> ContainerID \<Rightarrow> ContainerID" where
  "MergeFrom this (ContainerID v None) =
     ContainerID (if v = [] then value' this else v) (parent this)"
| "MergeFrom this (ContainerID v (Some p)) =
     ContainerID (if v = [] then value' this else v)
       (Some (MergeFrom (case parent this of None \<Rightarrow> ContainerID [] None | Some q \<Rightarrow> q) p))"

text \<open>
  \<open>containerId = containerId.parent()\<close>: the source of the assignment is the parent
  sub-message that the target owns, another object than the target. \<open>Clear()\<close> of the
  target clears that sub-message too, so \<open>MergeFrom\<close> reads a source that is already
  cleared. (Without a parent, \<open>parent()\<close> is the default message, which is empty.)
\<close>

definition assign_parent :: "ContainerID \<Rightarrow> ContainerID" where
  "assign_parent containerId =
     (case parent containerId of
        None \<Rightarrow> MergeFrom (Clear containerId) (ContainerID [] None)
      | Some from_parent \<Rightarrow> MergeFrom (Clear containerId) (Clear from_parent))"

section \<open>Launcher::buildPathFromHierarchy\<close>

text \<open>
  Modelled from the spec: \<open>path::join\<close> (stout) is not part of the translated file.
  Its two-argument form is the parameter \<open>join\<close> of the functions below, so what is
  proved of them holds for any join. The three-argument call
  \<open>path::join(prefix, containerId.value(), path)\<close> joins its components in the order
  given (section 4.1 of the specification: segments are joined in ancestor-to-descendant
  order), the first with the join of the other two.
\<close>

definition join3 :: "(string \<Rightarrow> string \<Rightarrow> string) \<Rightarrow> string \<Rightarrow> string \<Rightarrow> string \<Rightarrow> string" where
  "join3 join path1 path2 path3 = join path1 (join path2 path3)"

text \<open>
  The \<open>while (containerId.has_parent())\<close> loop, with the loop variables
  \<open>containerId\<close> and \<open>path\<close> as arguments. It ends because the assignment leaves an
  identity without parent.
\<close>

function buildPath_loop ::
  "(string \<Rightarrow> string \<Rightarrow> string) \<Rightarrow> string \<Rightarrow> ContainerID \<Rightarrow> string \<Rightarrow> string" where
  "buildPath_loop join prefix containerId path =
     (if has_parent containerId
      then let containerId' = assign_parent containerId
           in buildPath_loop join prefix containerId'
                (join3 join prefix (value' containerId') path)
      else path)"
  by pat_completeness auto
termination
  by (relation "measure (\<lambda>(join, prefix, containerId, path).
        if has_parent containerId then 1 else 0)")
    (auto simp add: has_parent_def assign_parent_def Clear_def split: option.splits)

definition buildPathFromHierarchy ::
  "(string \<Rightarrow> string \<Rightarrow> string) \<Rightarrow> ContainerID \<Rightarrow> string \<Rightarrow> string" where
  "buildPathFromHierarchy join containerId prefix =
     buildPath_loop join prefix containerId (join prefix (value' containerId))"

text \<open>Vocabulary for stating properties of the derived path.\<close>

text \<open>The ancestors of an identity, nearest first, root-most last.\<close>

fun ancestors :: "ContainerID \<Rightarrow> ContainerID list" where
  "ancestors (ContainerID v None) = []"
| "ancestors (ContainerID v (Some p)) = p # ancestors p"

text \<open>The levels of an identity from the root-most ancestor down to the identity itself.\<close>

definition hierarchy :: "ContainerID \<Rightarrow> ContainerID list" where
  "hierarchy c = rev (c # ancestors c)"

text \<open>The variadic \<open>path::join\<close> of a non-empty list of components.\<close>

fun join_all :: "(string \<Rightarrow> string \<Rightarrow> string) \<Rightarrow> string list \<Rightarrow> string" where
  "join_all join [] = []"
| "join_all join [x] = x"
| "join_all join (x # y # ys) = join x (join_all join (y # ys))"

text \<open>One path segment per level: the prefix followed by the level's own label.\<close>

definition segments :: "string \<Rightarrow> ContainerID list \<Rightarrow> string list" where
  "segments prefix cs = concat (map (\<lambda>c. [prefix, value' c]) cs)"

section \<open>The process registry and the collaborators\<close>

text \<open>
  Modelled from the spec: the registry type \<open>hashmap<ContainerID, pid_t>\<close> (stout) is
  not part of the translated file. Section 3 of the specification describes it as a
  mutable association from identities to handles with at most one entry per identity, so
  it is a partial map; \<open>put\<close> stores (replacing an entry of the same key), \<open>erase\<close>
  removes, \<open>contains\<close> tests a key and \<open>containsValue\<close> tests a value.
\<close>

type_synonym registry = "ContainerID \<rightharpoonup> pid_t"

definition contains :: "registry \<Rightarrow> ContainerID \<Rightarrow> bool" where
  "contains m k = (m k \<noteq> None)"

definition containsValue :: "registry \<Rightarrow> pid_t \<Rightarrow> bool" where
  "containsValue m v = (v \<in> ran m)"

definition put :: "registry \<Rightarrow> ContainerID \<Rightarrow> pid_t \<Rightarrow> registry" where
  "put m k v = m(k \<mapsto> v)"

definition erase :: "registry \<Rightarrow> ContainerID \<Rightarrow> registry" where
  "erase m k = m(k := None)"

text \<open>
  \<open>pids[containerId]\<close>: the index operator of the standard map returns the stored value,
  and on a missing key stores and returns a value-initialised one.
\<close>

definition index_op :: "registry \<Rightarrow> ContainerID \<Rightarrow> pid_t \<times> registry" where
  "index_op m k = (case m k of Some v \<Rightarrow> (v, m) | None \<Rightarrow> (0, m(k \<mapsto> 0)))"

text \<open>The fields of the messages that the launcher reads or writes.\<close>

text \<open>
  \<open>pid_t\<close> is a signed integer of 32 bits. The persisted \<open>pid\<close> of a
  \<open>ContainerState\<close> is an integer field wider than that; \<open>pid_t pid = state.pid()\<close>
  keeps its low 32 bits, read as a signed value.
\<close>

definition to_pid_t :: "int \<Rightarrow> pid_t" where
  "to_pid_t n = (n + 2 ^ 31) mod 2 ^ 32 - 2 ^ 31"

record ContainerState =
  container_id :: ContainerID
  pid :: int

record ContainerStatus =
  executor_pid :: pid_t

text \<open>
  Failures. Each constructor stands for one message of the source and carries what the
  message is built from:
  \<^item> \<open>DuplicatePid pid containerId\<close>: "Detected duplicate pid <pid> for container <id>";
  \<^item> \<open>NamespacesUnsupported\<close>: "Posix launcher does not support namespaces";
  \<^item> \<open>AlreadyForked containerId\<close>: "Process has already been forked for container <id>";
  \<^item> \<open>ForkFailed e\<close>: "Failed to fork a child process: " followed by \<open>e\<close>;
  \<^item> \<open>UnknownContainer v\<close>: "Unknown container " followed by the label \<open>v\<close>;
  \<^item> \<open>KillFailed e\<close>: "Failed to kill all processes: " followed by \<open>e\<close>;
  \<^item> \<open>ContainerDoesNotExist\<close>: "Container does not exist!";
  \<^item> \<open>Message e\<close>: the message \<open>e\<close> of a collaborator's failed future, as it is.
\<close>

datatype error =
    DuplicatePid pid_t ContainerID
  | NamespacesUnsupported
  | AlreadyForked ContainerID
  | ForkFailed string
  | UnknownContainer string
  | KillFailed string
  | ContainerDoesNotExist
  | Message string

text \<open>
  A future, by the state it ends in: ready with a value, failed with a message,
  discarded, or pending for ever.
\<close>

datatype ('e, 'a) Future = PENDING | READY 'a | FAILED 'e | DISCARDED

text \<open>
  \<open>Future::then\<close> (libprocess) is not part of the translated file. It runs its
  continuation on the value of a ready future only; the failure of a failed future and
  the discard of a discarded one pass, as they are, to the future that it returns, and
  the continuation is not run.
\<close>

definition future_then ::
  "(string, 'a) Future \<Rightarrow> ('a \<Rightarrow> (error, 'b) Future) \<Rightarrow> (error, 'b) Future" where
  "future_then future f =
     (case future of
        PENDING \<Rightarrow> PENDING
      | READY v \<Rightarrow> f v
      | FAILED message \<Rightarrow> FAILED (Message message)
      | DISCARDED \<Rightarrow> DISCARDED)"

text \<open>The arguments of one call of \<open>subprocess\<close>, in the order of the call.\<close>

datatype IO = PIPE | PATH string | FD int

datatype Setsid = SETSID | NO_SETSID

datatype Hook = Hook string | ExtendLifetime

record SubprocessCall =
  sp_path :: string
  sp_argv :: "string list"
  sp_in :: IO
  sp_out :: IO
  sp_err :: IO
  sp_setsid :: Setsid
  sp_flags :: "(string \<times> string) list option"
  sp_environment :: "(string \<times> string) list option"
  sp_parentHooks :: "Hook list"

text \<open>The arguments of one call of \<open>os::killtree\<close>: pid, signal, groups, sessions.\<close>

datatype KillTreeCall = KillTree pid_t int bool bool

definition SIGKILL :: int where
  "SIGKILL = 9"

datatype ProcessTree = ProcessTree pid_t "ProcessTree list"

text \<open>
  The collaborators, by what they answer: \<open>subprocess\<close> an error message or the pid of
  the child, \<open>os::killtree\<close> an error message or the trees it signalled,
  \<open>process::reap\<close> the future of the exit status, \<open>systemd::enabled\<close> a flag (false
  also stands for a build without \<open>__linux__\<close>).
\<close>

record OS =
  subprocess :: "SubprocessCall \<Rightarrow> string + pid_t"
  killtree :: "KillTreeCall \<Rightarrow> string + ProcessTree list"
  reap :: "pid_t \<Rightarrow> (string, int option) Future"
  systemd_enabled :: bool

text \<open>
  The launcher's state: its registry \<open>pids\<close>, and the calls it has made so far to
  \<open>subprocess\<close> and to \<open>os::killtree\<close>, oldest first.
\<close>

record Launcher =
  pids :: registry
  spawned :: "SubprocessCall list"
  killed :: "KillTreeCall list"

section \<open>PosixLauncher::recover\<close>

fun recover ::
  "Launcher \<Rightarrow> ContainerState list \<Rightarrow> (error, ContainerID set) Future \<times> Launcher" where
  "recover s [] = (READY {}, s)"
| "recover s (state # states) =
     (let containerId = container_id state;
          p = to_pid_t (pid state)
      in if containsValue (pids s) p
         then (FAILED (DuplicatePid p containerId), s)
         else recover (s\<lparr>pids := put (pids s) containerId p\<rparr>) states)"

section \<open>PosixLauncher::fork\<close>

definition fork ::
  "OS \<Rightarrow> Launcher \<Rightarrow> ContainerID \<Rightarrow> string \<Rightarrow> string list \<Rightarrow> IO \<Rightarrow> IO \<Rightarrow> IO \<Rightarrow>
   (string \<times> string) list option \<Rightarrow> (string \<times> string) list option \<Rightarrow> int option \<Rightarrow>
   Hook list \<Rightarrow> (error + pid_t) \<times> Launcher" where
  "fork os s containerId path argv inp out err flags environment namespaces parentHooks =
     (if (case namespaces of None \<Rightarrow> False | Some n \<Rightarrow> n \<noteq> 0)
      then (Inl NamespacesUnsupported, s)
      else if contains (pids s) containerId
      then (Inl (AlreadyForked containerId), s)
      else
        let hooks = (if systemd_enabled os then parentHooks @ [ExtendLifetime]
                     else parentHooks);
            call = \<lparr>sp_path = path, sp_argv = argv, sp_in = inp, sp_out = out,
                    sp_err = err, sp_setsid = SETSID, sp_flags = flags,
                    sp_environment = environment, sp_parentHooks = hooks\<rparr>;
            child = subprocess os call;
            s1 = s\<lparr>spawned := spawned s @ [call]\<rparr>
        in case child of
             Inl e \<Rightarrow> (Inl (ForkFailed e), s1)
           | Inr child_pid \<Rightarrow>
               (Inr child_pid, s1\<lparr>pids := put (pids s1) containerId child_pid\<rparr>))"

section \<open>PosixLauncher::destroy\<close>

text \<open>The continuation \<open>_destroy\<close>.\<close>

definition destroy' :: "(string, int option) Future \<Rightarrow> (error, unit) Future" where
  "destroy' future =
     (case future of
        READY status \<Rightarrow> READY ()
      | FAILED message \<Rightarrow> FAILED (KillFailed message)
      | _ \<Rightarrow> FAILED (KillFailed ''unknown error''))"

text \<open>
  The case on \<open>pids s containerId\<close> is the test \<open>pids.contains(containerId)\<close> together
  with the read \<open>pids.get(containerId).get()\<close>. The answer of \<open>os::killtree\<close> is bound
  to \<open>trees\<close> and not used again. The continuation
  \<open>lambda::bind(&_destroy, lambda::_1)\<close> receives the value of the ready reap future,
  which the parameter type of \<open>_destroy\<close> turns into a ready future.
\<close>

definition destroy ::
  "OS \<Rightarrow> Launcher \<Rightarrow> ContainerID \<Rightarrow> (error, unit) Future \<times> Launcher" where
  "destroy os s containerId =
     (case pids s containerId of
        None \<Rightarrow> (FAILED (UnknownContainer (value' containerId)), s)
      | Some p \<Rightarrow>
          let call = KillTree p SIGKILL True True;
              trees = killtree os call;
              s1 = s\<lparr>killed := killed s @ [call]\<rparr>;
              s2 = s1\<lparr>pids := erase (pids s1) containerId\<rparr>
          in (future_then (reap os p) (\<lambda>status. destroy' (READY status)), s2))"

section \<open>PosixLauncher::status\<close>

definition status ::
  "Launcher \<Rightarrow> ContainerID \<Rightarrow> (error, ContainerStatus) Future \<times> Launcher" where
  "status s containerId =
     (if \<not> contains (pids s) containerId
      then (FAILED ContainerDoesNotExist, s)
      else
        let (v, m) = index_op (pids s) containerId
        in (READY \<lparr>executor_pid = v\<rparr>, s\<lparr>pids := m\<rparr>))"

section \<open>Vocabulary of the theorems\<close>

text \<open>The launcher as constructed: an empty registry, no collaborator called yet.\<close>

definition fresh :: Launcher where
  "fresh = \<lparr>pids = Map.empty, spawned = [], killed = []\<rparr>"

text \<open>The association that a persisted state carries.\<close>

text \<open>The handle of a persisted state: its pid as a \<open>pid_t\<close>.\<close>

definition handle :: "ContainerState \<Rightarrow> pid_t" where
  "handle state = to_pid_t (pid state)"

definition entry :: "ContainerState \<Rightarrow> ContainerID \<times> pid_t" where
  "entry state = (container_id state, handle state)"

text \<open>The condition of the first check of fork: \<open>namespaces\<close> is present and not zero.\<close>

definition namespaces_requested :: "int option \<Rightarrow> bool" where
  "namespaces_requested namespaces = (case namespaces of None \<Rightarrow> False | Some n \<Rightarrow> n \<noteq> 0)"

section \<open>The derived path\<close>

declare buildPath_loop.simps [simp del]

lemma assign_parent_empty: "assign_parent containerId = ContainerID [] None"
  by (simp add: assign_parent_def Clear_def split: option.splits)

lemma buildPath_loop_parentless:
  "\<not> has_parent containerId \<Longrightarrow> buildPath_loop join prefix containerId path = path"
  by (subst buildPath_loop.simps) simp

lemma buildPath_loop_nested:
  "has_parent containerId \<Longrightarrow>
   buildPath_loop join prefix containerId path = join3 join prefix [] path"
  by (subst buildPath_loop.simps)
    (simp add: assign_parent_empty buildPath_loop_parentless has_parent_def)

text \<open>
  Claim C2 (the code departs from it). An identity without parent yields the join of the
  prefix and its label, as the claim says. For an identity with a parent, the assignment
  in the loop leaves an empty identity, so the loop runs once, whatever the number of
  ancestors: the path is the prefix, an empty label, the prefix and the identity's own
  label, and the labels of the ancestors do not occur in it. With two levels and a join
  that puts a slash between its arguments, the code gives \<open>containers//containers/child\<close>
  where one segment per level, root to leaf, is \<open>containers/parent/containers/child\<close>.
\<close>

theorem buildPathFromHierarchy_loses_ancestors:
  "buildPathFromHierarchy join (ContainerID v None) prefix = join prefix v \<and>
   buildPathFromHierarchy join (ContainerID v (Some p)) prefix =
     join prefix (join [] (join prefix v)) \<and>
   buildPathFromHierarchy (\<lambda>a b. a @ ''/'' @ b)
     (ContainerID ''child'' (Some (ContainerID ''parent'' None))) ''containers'' =
     ''containers//containers/child'' \<and>
   join_all (\<lambda>a b. a @ ''/'' @ b)
     (segments ''containers''
       (hierarchy (ContainerID ''child'' (Some (ContainerID ''parent'' None))))) =
     ''containers/parent/containers/child''"
  by (simp add: buildPathFromHierarchy_def buildPath_loop_parentless buildPath_loop_nested
      has_parent_def join3_def hierarchy_def segments_def)

section \<open>Recovery\<close>

lemma containsValue_iff: "containsValue m v = (\<exists>k. m k = Some v)"
  by (auto simp: containsValue_def ran_def)

lemma containsValue_empty: "\<not> containsValue Map.empty v"
  by (simp add: containsValue_def)

lemma containsValue_upd_fresh:
  "m k = None \<Longrightarrow> containsValue (m(k \<mapsto> v)) w = (w = v \<or> containsValue m w)"
  by (auto simp: containsValue_def)

lemma recover_Cons:
  "recover s (state # states) =
     (if containsValue (pids s) (handle state)
      then (FAILED (DuplicatePid (handle state) (container_id state)), s)
      else recover (s\<lparr>pids := put (pids s) (container_id state) (handle state)\<rparr>) states)"
  by (simp add: handle_def)

declare recover.simps(2) [simp del]
declare recover_Cons [simp]

lemmas recover_eval =
  fresh_def put_def handle_def to_pid_t_def containsValue_empty containsValue_upd_fresh

lemma recover_append:
  "fst (recover s pre) = READY {} \<Longrightarrow>
   recover s (pre @ rest) = recover (snd (recover s pre)) rest"
  by (induction pre arbitrary: s) (simp_all split: if_splits)

lemma recover_failed_split:
  "recover s states = (FAILED e, s') \<Longrightarrow>
   \<exists>pre st post. states = pre @ st # post \<and> recover s pre = (READY {}, s') \<and>
     containsValue (pids s') (handle st) \<and> e = DuplicatePid (handle st) (container_id st)"
proof (induction states arbitrary: s)
  case Nil
  then show ?case by simp
next
  case (Cons x xs)
  show ?case
  proof (cases "containsValue (pids s) (handle x)")
    case True
    with Cons.prems have "s' = s" "e = DuplicatePid (handle x) (container_id x)" by simp_all
    with True have "x # xs = [] @ x # xs \<and> recover s [] = (READY {}, s') \<and>
      containsValue (pids s') (handle x) \<and> e = DuplicatePid (handle x) (container_id x)"
      by simp
    then show ?thesis by blast
  next
    case False
    let ?s1 = "s\<lparr>pids := put (pids s) (container_id x) (handle x)\<rparr>"
    from False Cons.prems have "recover ?s1 xs = (FAILED e, s')" by simp
    from Cons.IH [OF this] obtain pre st post where
      h: "xs = pre @ st # post" "recover ?s1 pre = (READY {}, s')"
         "containsValue (pids s') (handle st)" "e = DuplicatePid (handle st) (container_id st)"
      by blast
    from False h(2) have "recover s (x # pre) = (READY {}, s')" by simp
    with h have "x # xs = (x # pre) @ st # post \<and> recover s (x # pre) = (READY {}, s') \<and>
      containsValue (pids s') (handle st) \<and> e = DuplicatePid (handle st) (container_id st)"
      by simp
    then show ?thesis by blast
  qed
qed

lemma recover_failed_at:
  assumes "recover s pre = (READY {}, s')" and "containsValue (pids s') (handle st)"
  shows "recover s (pre @ st # post) = (FAILED (DuplicatePid (handle st) (container_id st)), s')"
  using assms by (simp add: recover_append)

lemma recover_distinct:
  "distinct (map container_id pre) \<Longrightarrow> distinct (map handle pre) \<Longrightarrow>
   handle ` set pre \<inter> ran (pids s) = {} \<Longrightarrow> container_id ` set pre \<inter> dom (pids s) = {} \<Longrightarrow>
   recover s pre = (READY {}, s\<lparr>pids := pids s ++ map_of (map entry pre)\<rparr>)"
proof (induction pre arbitrary: s)
  case Nil
  then show ?case by simp
next
  case (Cons x xs)
  let ?m = "(pids s)(container_id x \<mapsto> handle x)"
  let ?s1 = "s\<lparr>pids := ?m\<rparr>"
  from Cons.prems have fresh: "pids s (container_id x) = None" by auto
  from Cons.prems have nv: "\<not> containsValue (pids s) (handle x)"
    by (auto simp: containsValue_def)
  have ran1: "ran ?m = insert (handle x) (ran (pids s))" using fresh by simp
  have a: "handle ` set xs \<inter> ran (pids ?s1) = {}"
    using Cons.prems ran1 by auto
  have b: "container_id ` set xs \<inter> dom (pids ?s1) = {}"
    using Cons.prems by auto
  have d1: "distinct (map container_id xs)" and d2: "distinct (map handle xs)"
    using Cons.prems by simp_all
  have r1: "recover ?s1 xs = (READY {}, ?s1\<lparr>pids := pids ?s1 ++ map_of (map entry xs)\<rparr>)"
    by (rule Cons.IH [OF d1 d2 a b])
  have notin: "container_id x \<notin> dom (map_of (map entry xs))"
    using Cons.prems by (auto simp: dom_map_of_conv_image_fst entry_def image_iff)
  have e1: "map_of (map entry (x # xs)) = (map_of (map entry xs))(container_id x \<mapsto> handle x)"
    by (simp add: entry_def)
  have e2: "?m ++ map_of (map entry xs) =
      (pids s ++ map_of (map entry xs))(container_id x \<mapsto> handle x)"
    using notin by (rule map_add_upd_left)
  have eq: "?m ++ map_of (map entry xs) = pids s ++ map_of (map entry (x # xs))"
    unfolding e1 e2 by (simp only: map_add_upd)
  have step: "recover s (x # xs) = recover ?s1 xs"
    using nv by (simp add: put_def)
  have p1: "pids ?s1 = ?m" by simp
  have upd: "?s1\<lparr>pids := m'\<rparr> = s\<lparr>pids := m'\<rparr>" for m' by simp
  show ?case by (simp only: step r1 p1 eq upd)
qed

lemma first_repeat:
  "\<not> distinct (map f xs) \<Longrightarrow>
   \<exists>pre x post. xs = pre @ x # post \<and> distinct (map f pre) \<and> f x \<in> f ` set pre"
proof (induction xs rule: rev_induct)
  case Nil
  then show ?case by simp
next
  case (snoc x xs)
  show ?case
  proof (cases "distinct (map f xs)")
    case True
    with snoc.prems have "f x \<in> f ` set xs" by auto
    with True have "xs @ [x] = xs @ x # [] \<and> distinct (map f xs) \<and> f x \<in> f ` set xs"
      by simp
    then show ?thesis by blast
  next
    case False
    from snoc.IH [OF this] obtain pre y post where
      "xs = pre @ y # post" "distinct (map f pre)" "f y \<in> f ` set pre" by blast
    then have "xs @ [x] = pre @ y # (post @ [x]) \<and> distinct (map f pre) \<and> f y \<in> f ` set pre"
      by simp
    then show ?thesis by blast
  qed
qed

text \<open>
  Claim C1 (amended). Recovery does not roll back. Handles are compared as \<open>pid_t\<close>
  values, that is after the conversion of the persisted pid. For every list of
  associations with pairwise distinct identities in which two identities carry the same
  handle, recover on a launcher with an empty registry fails at the first association
  whose handle repeats that of an earlier one, with the duplicate-pid failure naming that
  handle and the identity being processed; afterwards the registry holds exactly the
  associations processed before that one (so it is not empty), and neither the offending
  association nor any later one.
\<close>

theorem recover_duplicate_keeps_processed:
  assumes empty: "pids s = Map.empty"
    and ids: "distinct (map container_id states)"
    and dup: "\<not> distinct (map handle states)"
  shows "\<exists>pre st post. states = pre @ st # post \<and>
     distinct (map handle pre) \<and> handle st \<in> handle ` set pre \<and>
     recover s states =
       (FAILED (DuplicatePid (handle st) (container_id st)),
        s\<lparr>pids := map_of (map entry pre)\<rparr>) \<and>
     map_of (map entry pre) \<noteq> Map.empty"
proof -
  from first_repeat [OF dup] obtain pre st post where
    sp: "states = pre @ st # post" and dp: "distinct (map handle pre)" and
    rep: "handle st \<in> handle ` set pre"
    by blast
  from ids sp have dc: "distinct (map container_id pre)" by simp
  have "recover s pre = (READY {}, s\<lparr>pids := pids s ++ map_of (map entry pre)\<rparr>)"
    by (rule recover_distinct [OF dc dp]) (simp_all add: empty)
  then have ok: "recover s pre = (READY {}, s\<lparr>pids := map_of (map entry pre)\<rparr>)"
    by (simp add: empty)
  have "distinct (map fst (map entry pre))"
    using dc by (simp add: entry_def comp_def)
  then have "ran (map_of (map entry pre)) = snd ` set (map entry pre)"
    by (rule ran_distinct)
  then have "ran (map_of (map entry pre)) = handle ` set pre"
    by (simp add: entry_def image_image)
  with rep have cv: "containsValue (pids (s\<lparr>pids := map_of (map entry pre)\<rparr>)) (handle st)"
    by (simp add: containsValue_def)
  have fail: "recover s states =
      (FAILED (DuplicatePid (handle st) (container_id st)), s\<lparr>pids := map_of (map entry pre)\<rparr>)"
    unfolding sp by (rule recover_failed_at [OF ok cv])
  from rep have "pre \<noteq> []" by auto
  then have ne: "map_of (map entry pre) \<noteq> Map.empty"
    by (cases pre) (simp_all add: entry_def)
  from sp dp rep fail ne show ?thesis by blast
qed

theorem recover_duplicate_keeps_processed_witness:
  "let states =
     [\<lparr>container_id = ContainerID ''a'' None, pid = 1\<rparr>,
      \<lparr>container_id = ContainerID ''b'' None, pid = 2\<rparr>,
      \<lparr>container_id = ContainerID ''c'' None, pid = 4294967297\<rparr>,
      \<lparr>container_id = ContainerID ''d'' None, pid = 4\<rparr>,
      \<lparr>container_id = ContainerID ''e'' None, pid = 5\<rparr>]
   in pids fresh = Map.empty \<and> distinct (map container_id states) \<and>
      \<not> distinct (map handle states) \<and>
      (\<exists>pre st post. states = pre @ st # post \<and>
         distinct (map handle pre) \<and> handle st \<in> handle ` set pre \<and>
         recover fresh states =
           (FAILED (DuplicatePid (handle st) (container_id st)),
            fresh\<lparr>pids := map_of (map entry pre)\<rparr>) \<and>
         map_of (map entry pre) \<noteq> Map.empty)"
proof -
  let ?states =
    "[\<lparr>container_id = ContainerID ''a'' None, pid = 1\<rparr>,
      \<lparr>container_id = ContainerID ''b'' None, pid = 2\<rparr>,
      \<lparr>container_id = ContainerID ''c'' None, pid = 4294967297\<rparr>,
      \<lparr>container_id = ContainerID ''d'' None, pid = 4\<rparr>,
      \<lparr>container_id = ContainerID ''e'' None, pid = 5\<rparr>]"
  have h1: "pids fresh = Map.empty" by (simp add: fresh_def)
  have h2: "distinct (map container_id ?states)" by simp
  have h3: "\<not> distinct (map handle ?states)" by (simp add: handle_def to_pid_t_def)
  from recover_duplicate_keeps_processed [OF h1 h2 h3] h1 h2 h3
  show ?thesis unfolding Let_def by (intro conjI)
qed

text \<open>
  The claim as stated fails: with the duplicate as the third of five entries, recover
  fails naming handle 1 and identity \<open>c\<close>, and the registry still holds the two
  associations processed before it.
\<close>

theorem recover_all_or_nothing_counterexample:
  "fst (recover fresh
     [\<lparr>container_id = ContainerID ''a'' None, pid = 1\<rparr>,
      \<lparr>container_id = ContainerID ''b'' None, pid = 2\<rparr>,
      \<lparr>container_id = ContainerID ''c'' None, pid = 1\<rparr>,
      \<lparr>container_id = ContainerID ''d'' None, pid = 4\<rparr>,
      \<lparr>container_id = ContainerID ''e'' None, pid = 5\<rparr>]) =
     FAILED (DuplicatePid 1 (ContainerID ''c'' None)) \<and>
   pids (snd (recover fresh
     [\<lparr>container_id = ContainerID ''a'' None, pid = 1\<rparr>,
      \<lparr>container_id = ContainerID ''b'' None, pid = 2\<rparr>,
      \<lparr>container_id = ContainerID ''c'' None, pid = 1\<rparr>,
      \<lparr>container_id = ContainerID ''d'' None, pid = 4\<rparr>,
      \<lparr>container_id = ContainerID ''e'' None, pid = 5\<rparr>])) =
     [ContainerID ''a'' None \<mapsto> 1, ContainerID ''b'' None \<mapsto> 2] \<and>
   [ContainerID ''a'' None \<mapsto> 1, ContainerID ''b'' None \<mapsto> 2] \<noteq> (Map.empty :: registry)"
  by (simp add: recover_eval)

text \<open>
  Claim C9 (amended). A recovery pass fails, with the duplicate-pid failure naming the
  handle and the identity being processed, exactly when it reaches, after processing the
  associations before it, an association whose handle (the persisted pid as a \<open>pid_t\<close>)
  is at that moment the registry value of some identity, the same identity or a
  different one; the registry is then as the associations before it left it.
\<close>

theorem recover_fails_iff_value_registered:
  "recover s states = (FAILED e, s') \<longleftrightarrow>
   (\<exists>pre st post. states = pre @ st # post \<and> recover s pre = (READY {}, s') \<and>
      (\<exists>c. pids s' c = Some (handle st)) \<and> e = DuplicatePid (handle st) (container_id st))"
proof
  assume "recover s states = (FAILED e, s')"
  from recover_failed_split [OF this] show
    "\<exists>pre st post. states = pre @ st # post \<and> recover s pre = (READY {}, s') \<and>
      (\<exists>c. pids s' c = Some (handle st)) \<and> e = DuplicatePid (handle st) (container_id st)"
    by (simp only: containsValue_iff)
next
  assume "\<exists>pre st post. states = pre @ st # post \<and> recover s pre = (READY {}, s') \<and>
      (\<exists>c. pids s' c = Some (handle st)) \<and> e = DuplicatePid (handle st) (container_id st)"
  then obtain pre st post where
    h: "states = pre @ st # post" "recover s pre = (READY {}, s')"
       "containsValue (pids s') (handle st)" "e = DuplicatePid (handle st) (container_id st)"
    unfolding containsValue_iff by blast
  from recover_failed_at [OF h(2) h(3)] h(1) h(4)
  show "recover s states = (FAILED e, s')" by simp
qed

theorem recover_fails_iff_value_registered_witness:
  "recover fresh
     [\<lparr>container_id = ContainerID ''a'' None, pid = 1\<rparr>,
      \<lparr>container_id = ContainerID ''b'' None, pid = 4294967297\<rparr>] =
   (FAILED (DuplicatePid 1 (ContainerID ''b'' None)),
    fresh\<lparr>pids := [ContainerID ''a'' None \<mapsto> 1]\<rparr>)"
proof -
  let ?a = "\<lparr>container_id = ContainerID ''a'' None, pid = 1\<rparr>"
  let ?st = "\<lparr>container_id = ContainerID ''b'' None, pid = 4294967297\<rparr>"
  let ?s' = "fresh\<lparr>pids := [ContainerID ''a'' None \<mapsto> 1]\<rparr>"
  have n: "handle ?st = 1"
    by (simp add: handle_def to_pid_t_def)
  have ok: "recover fresh [?a] = (READY {}, ?s')"
    by (simp add: recover_eval)
  have held: "pids ?s' (ContainerID ''a'' None) = Some (handle ?st)"
    by (simp add: n)
  have "[?a, ?st] = [?a] @ ?st # [] \<and> recover fresh [?a] = (READY {}, ?s') \<and>
      (\<exists>c. pids ?s' c = Some (handle ?st)) \<and>
      DuplicatePid 1 (ContainerID ''b'' None) = DuplicatePid (handle ?st) (container_id ?st)"
    using ok held n by (intro conjI exI [of _ "ContainerID ''a'' None"]) simp_all
  then have "\<exists>pre st post. [?a, ?st] = pre @ st # post \<and>
      recover fresh pre = (READY {}, ?s') \<and> (\<exists>c. pids ?s' c = Some (handle st)) \<and>
      DuplicatePid 1 (ContainerID ''b'' None) = DuplicatePid (handle st) (container_id st)"
    by blast
  then show ?thesis
    by (rule iffD2 [OF recover_fails_iff_value_registered])
qed

text \<open>
  The claim as stated fails: the second association carries the handle recorded for its
  own identity, held by no different identity, and the pass fails with the duplicate-pid
  failure all the same.
\<close>

theorem recover_same_identity_counterexample:
  "fst (recover fresh
     [\<lparr>container_id = ContainerID ''a'' None, pid = 1\<rparr>,
      \<lparr>container_id = ContainerID ''a'' None, pid = 1\<rparr>]) =
     FAILED (DuplicatePid 1 (ContainerID ''a'' None)) \<and>
   pids (snd (recover fresh [\<lparr>container_id = ContainerID ''a'' None, pid = 1\<rparr>])) =
     [ContainerID ''a'' None \<mapsto> 1] \<and>
   \<not> (\<exists>c. c \<noteq> ContainerID ''a'' None \<and> [ContainerID ''a'' None \<mapsto> (1::int)] c = Some 1)"
  by (simp add: recover_eval)

section \<open>Fork, destroy and status\<close>

lemma namespaces_requested_iff:
  "namespaces_requested ns = (\<exists>n. ns = Some n \<and> n \<noteq> 0)"
  by (cases ns) (simp_all add: namespaces_requested_def)

lemma fork_rejected:
  "namespaces_requested ns \<Longrightarrow>
   fork os s c path argv inp out err flags env ns hooks = (Inl NamespacesUnsupported, s)"
  by (simp add: fork_def namespaces_requested_def)

lemma fork_registered:
  "\<not> namespaces_requested ns \<Longrightarrow> pids s c = Some p \<Longrightarrow>
   fork os s c path argv inp out err flags env ns hooks = (Inl (AlreadyForked c), s)"
  by (simp add: fork_def namespaces_requested_def contains_def)

lemma fork_spawns:
  assumes "\<not> namespaces_requested ns" and "pids s c = None"
    and "call = \<lparr>sp_path = path, sp_argv = argv, sp_in = inp, sp_out = out,
      sp_err = err, sp_setsid = SETSID, sp_flags = flags, sp_environment = env,
      sp_parentHooks = (if systemd_enabled os then hooks @ [ExtendLifetime] else hooks)\<rparr>"
  shows "fork os s c path argv inp out err flags env ns hooks =
     (case subprocess os call of
        Inl e \<Rightarrow> (Inl (ForkFailed e), s\<lparr>spawned := spawned s @ [call]\<rparr>)
      | Inr h \<Rightarrow> (Inr h, s\<lparr>spawned := spawned s @ [call], pids := (pids s)(c \<mapsto> h)\<rparr>))"
  using assms
  by (simp add: fork_def namespaces_requested_def contains_def Let_def put_def
      split: sum.splits)

lemma fork_success:
  "fork os s c path argv inp out err flags env ns hooks = (Inr h, s') \<Longrightarrow>
   pids s' c = Some h \<and> \<not> namespaces_requested ns \<and> pids s c = None \<and>
   length (spawned s') = length (spawned s) + 1"
  by (auto simp add: fork_def namespaces_requested_def contains_def Let_def put_def
      split: sum.splits if_splits option.splits)

lemma status_registered:
  "pids s c = Some p \<Longrightarrow> status s c = (READY \<lparr>executor_pid = p\<rparr>, s)"
  by (simp add: status_def contains_def index_op_def)

lemma status_unknown:
  "pids s c = None \<Longrightarrow> status s c = (FAILED ContainerDoesNotExist, s)"
  by (simp add: status_def contains_def)

lemma status_state: "snd (status s c) = s"
  by (cases "pids s c") (simp_all add: status_registered status_unknown)

lemma destroy_unknown:
  "pids s c = None \<Longrightarrow> destroy os s c = (FAILED (UnknownContainer (value' c)), s)"
  by (simp add: destroy_def)

lemma destroy_registered:
  "pids s c = Some p \<Longrightarrow>
   destroy os s c =
     (future_then (reap os p) (\<lambda>status. destroy' (READY status)),
      s\<lparr>killed := killed s @ [KillTree p SIGKILL True True], pids := (pids s)(c := None)\<rparr>)"
  by (simp add: destroy_def Let_def erase_def)

lemma then_destroy:
  "future_then r (\<lambda>status. destroy' (READY status)) =
     (case r of PENDING \<Rightarrow> PENDING | READY st \<Rightarrow> READY ()
      | FAILED m \<Rightarrow> FAILED (Message m) | DISCARDED \<Rightarrow> DISCARDED)"
  by (cases r) (simp_all add: future_then_def destroy'_def)

text \<open>
  Claim C3 (the code departs from it). For an identity with a registry entry, the future
  that destroy returns is ready exactly when the reap-wait for the entry's pid is ready,
  with any exit status, known or not, and what \<open>os::killtree\<close> answers has no influence
  on it: so far the claim holds. The continuation \<open>_destroy\<close> would turn a failed
  reap-wait into the kill failure carrying the cause, and one that ended otherwise into
  the kill failure carrying "unknown error"; but it is run on ready values only. When the
  reap-wait fails, the future fails with the message of the reap-wait as it is; when the
  reap-wait is discarded, the future is discarded and does not fail; in no case does the
  future carry the kill failure.
\<close>

theorem destroy_future_forwards_reap:
  assumes "pids s c = Some p"
  shows "(fst (destroy os s c) = READY ()) = (\<exists>st. reap os p = READY st) \<and>
    (\<forall>k. fst (destroy (os\<lparr>killtree := k\<rparr>) s c) = fst (destroy os s c)) \<and>
    destroy' (FAILED cause) = FAILED (KillFailed cause) \<and>
    destroy' DISCARDED = FAILED (KillFailed ''unknown error'') \<and>
    (reap os p = FAILED cause \<longrightarrow> fst (destroy os s c) = FAILED (Message cause)) \<and>
    (reap os p = DISCARDED \<longrightarrow> fst (destroy os s c) = DISCARDED) \<and>
    (reap os p = PENDING \<longrightarrow> fst (destroy os s c) = PENDING) \<and>
    (\<forall>e. fst (destroy os s c) \<noteq> FAILED (KillFailed e))"
proof -
  have wrap: "destroy' (FAILED cause) = FAILED (KillFailed cause)"
    "destroy' DISCARDED = FAILED (KillFailed ''unknown error'')"
    by (simp_all add: destroy'_def)
  have fut: "fst (destroy os' s c) =
      (case reap os' p of PENDING \<Rightarrow> PENDING | READY st \<Rightarrow> READY ()
       | FAILED m \<Rightarrow> FAILED (Message m) | DISCARDED \<Rightarrow> DISCARDED)" for os'
    using assms by (simp add: destroy_registered then_destroy)
  show ?thesis
    by (cases "reap os p") (simp_all add: fut wrap)
qed

theorem destroy_future_forwards_reap_witness:
  "pids (fresh\<lparr>pids := [ContainerID ''a'' None \<mapsto> 7]\<rparr>) (ContainerID ''a'' None) = Some 7 \<and>
   fst (destroy
     \<lparr>subprocess = (\<lambda>call. Inr 42), killtree = (\<lambda>call. Inl ''No such process''),
      reap = (\<lambda>p. READY None), systemd_enabled = False\<rparr>
     (fresh\<lparr>pids := [ContainerID ''a'' None \<mapsto> 7]\<rparr>) (ContainerID ''a'' None)) = READY () \<and>
   fst (destroy
     \<lparr>subprocess = (\<lambda>call. Inr 42), killtree = (\<lambda>call. Inr []),
      reap = (\<lambda>p. FAILED ''Failed to wait''), systemd_enabled = False\<rparr>
     (fresh\<lparr>pids := [ContainerID ''a'' None \<mapsto> 7]\<rparr>) (ContainerID ''a'' None)) =
     FAILED (Message ''Failed to wait'') \<and>
   fst (destroy
     \<lparr>subprocess = (\<lambda>call. Inr 42), killtree = (\<lambda>call. Inr []),
      reap = (\<lambda>p. DISCARDED), systemd_enabled = False\<rparr>
     (fresh\<lparr>pids := [ContainerID ''a'' None \<mapsto> 7]\<rparr>) (ContainerID ''a'' None)) = DISCARDED"
proof -
  let ?s = "fresh\<lparr>pids := [ContainerID ''a'' None \<mapsto> 7]\<rparr>"
  have h: "pids ?s (ContainerID ''a'' None) = Some 7" by simp
  from h
    destroy_future_forwards_reap [OF h, of
      "\<lparr>subprocess = (\<lambda>call. Inr 42), killtree = (\<lambda>call. Inl ''No such process''),
        reap = (\<lambda>p. READY None), systemd_enabled = False\<rparr>"]
    destroy_future_forwards_reap [OF h, of
      "\<lparr>subprocess = (\<lambda>call. Inr 42), killtree = (\<lambda>call. Inr []),
        reap = (\<lambda>p. FAILED ''Failed to wait''), systemd_enabled = False\<rparr>" "''Failed to wait''"]
    destroy_future_forwards_reap [OF h, of
      "\<lparr>subprocess = (\<lambda>call. Inr 42), killtree = (\<lambda>call. Inr []),
        reap = (\<lambda>p. DISCARDED), systemd_enabled = False\<rparr>"]
  show ?thesis by simp
qed

text \<open>
  Claim C4. For an identity with a registry entry, the state in which destroy returns no
  longer has the entry, and that state is the same whatever the reap-wait does afterwards
  (so also while the returned future is pending). A fork on the same identity is refused
  as already forked in the state before destroy, and is not refused in the state that
  destroy returns: there it goes on to the spawn and succeeds when the spawn does.
\<close>

theorem destroy_removes_entry_on_return:
  assumes "pids s c = Some p"
  shows "pids (snd (destroy os s c)) c = None \<and>
    (\<forall>r. snd (destroy (os\<lparr>reap := r\<rparr>) s c) = snd (destroy os s c)) \<and>
    (\<not> namespaces_requested ns \<longrightarrow>
       fst (fork os' s c path argv inp out err flags env ns hooks) = Inl (AlreadyForked c) \<and>
       fst (fork os' (snd (destroy os s c)) c path argv inp out err flags env ns hooks) \<noteq>
         Inl (AlreadyForked c) \<and>
       (\<forall>h. subprocess os' = (\<lambda>call. Inr h) \<longrightarrow>
          fst (fork os' (snd (destroy os s c)) c path argv inp out err flags env ns hooks) =
            Inr h))"
proof -
  let ?s' = "snd (destroy os s c)"
  have gone: "pids ?s' c = None"
    using assms by (simp add: destroy_registered)
  have indep: "snd (destroy (os\<lparr>reap := r\<rparr>) s c) = ?s'" for r
    using assms by (simp add: destroy_registered)
  have after: "fst (fork os' ?s' c path argv inp out err flags env ns hooks) =
      (case subprocess os' \<lparr>sp_path = path, sp_argv = argv, sp_in = inp, sp_out = out,
          sp_err = err, sp_setsid = SETSID, sp_flags = flags, sp_environment = env,
          sp_parentHooks = (if systemd_enabled os' then hooks @ [ExtendLifetime] else hooks)\<rparr> of
         Inl e \<Rightarrow> Inl (ForkFailed e) | Inr h \<Rightarrow> Inr h)"
    if "\<not> namespaces_requested ns"
    using fork_spawns [OF that gone refl, of os' path argv inp out err flags env hooks]
    by (simp split: sum.splits)
  show ?thesis
    using assms gone indep after
    by (auto simp add: fork_registered split: sum.splits)
qed

theorem destroy_removes_entry_on_return_witness:
  "let os = \<lparr>subprocess = (\<lambda>call. Inr 43), killtree = (\<lambda>call. Inr []),
              reap = (\<lambda>p. PENDING), systemd_enabled = True\<rparr>;
       s = fresh\<lparr>pids := [ContainerID ''a'' None \<mapsto> 7]\<rparr>;
       c = ContainerID ''a'' None
   in pids s c = Some 7 \<and>
      pids (snd (destroy os s c)) c = None \<and>
      fst (fork os s c ''/bin/sh'' [''sh''] PIPE PIPE PIPE None None None []) =
        Inl (AlreadyForked c) \<and>
      fst (fork os (snd (destroy os s c)) c ''/bin/sh'' [''sh''] PIPE PIPE PIPE None None None []) =
        Inr 43"
proof -
  let ?os = "\<lparr>subprocess = (\<lambda>call. Inr 43), killtree = (\<lambda>call. Inr []),
              reap = (\<lambda>p. PENDING), systemd_enabled = True\<rparr>"
  let ?s = "fresh\<lparr>pids := [ContainerID ''a'' None \<mapsto> 7]\<rparr>"
  have h: "pids ?s (ContainerID ''a'' None) = Some 7" by simp
  have n: "\<not> namespaces_requested None" by (simp add: namespaces_requested_def)
  have sp: "subprocess ?os = (\<lambda>call. Inr 43)" by simp
  from h n sp
    destroy_removes_entry_on_return [OF h, of ?os None ?os "''/bin/sh''" "[''sh'']"
      PIPE PIPE PIPE None None "[]"]
  show ?thesis unfolding Let_def by blast
qed

text \<open>
  Claim C5 (amended). A fork on an identity that already has a registry entry fails, with
  the already-forked failure when the call asks for no namespaces (absent or zero), and
  with the namespaces failure otherwise; either way nothing is spawned and the state is
  unchanged, so the registry still holds the first handle.
\<close>

theorem fork_on_registered_identity:
  assumes "pids s c = Some p"
  shows "fst (fork os s c path argv inp out err flags env ns hooks) =
      Inl (if namespaces_requested ns then NamespacesUnsupported else AlreadyForked c) \<and>
    snd (fork os s c path argv inp out err flags env ns hooks) = s \<and>
    spawned (snd (fork os s c path argv inp out err flags env ns hooks)) = spawned s \<and>
    pids (snd (fork os s c path argv inp out err flags env ns hooks)) c = Some p"
  using assms by (simp add: fork_rejected fork_registered)

theorem fork_on_registered_identity_witness:
  "let os = \<lparr>subprocess = (\<lambda>call. Inr 44), killtree = (\<lambda>call. Inr []),
              reap = (\<lambda>p. READY (Some 0)), systemd_enabled = False\<rparr>;
       s = fresh\<lparr>pids := [ContainerID ''a'' None \<mapsto> 7]\<rparr>;
       c = ContainerID ''a'' None
   in pids s c = Some 7 \<and>
      fork os s c ''/bin/sh'' [''sh''] PIPE PIPE PIPE None None None [] =
        (Inl (AlreadyForked c), s) \<and>
      spawned s = [] \<and> pids s c = Some 7"
proof -
  let ?os = "\<lparr>subprocess = (\<lambda>call. Inr 44), killtree = (\<lambda>call. Inr []),
              reap = (\<lambda>p. READY (Some 0)), systemd_enabled = False\<rparr>"
  let ?s = "fresh\<lparr>pids := [ContainerID ''a'' None \<mapsto> 7]\<rparr>"
  have h: "pids ?s (ContainerID ''a'' None) = Some 7" by simp
  from h
    fork_on_registered_identity [OF h, of ?os "''/bin/sh''" "[''sh'']"
      PIPE PIPE PIPE None None None "[]"]
  show ?thesis unfolding Let_def
    by (simp add: namespaces_requested_def prod_eq_iff fresh_def)
qed

text \<open>
  The claim as stated fails: a second fork that asks for namespaces fails on the first
  check of fork, with the namespaces failure and not the already-forked one.
\<close>

theorem fork_registered_namespaces_counterexample:
  "pids (fresh\<lparr>pids := [ContainerID ''a'' None \<mapsto> 7]\<rparr>) (ContainerID ''a'' None) = Some 7 \<and>
   fst (fork
     \<lparr>subprocess = (\<lambda>call. Inr 44), killtree = (\<lambda>call. Inr []),
      reap = (\<lambda>p. READY (Some 0)), systemd_enabled = False\<rparr>
     (fresh\<lparr>pids := [ContainerID ''a'' None \<mapsto> 7]\<rparr>) (ContainerID ''a'' None)
     ''/bin/sh'' [''sh''] PIPE PIPE PIPE None None (Some 1) []) = Inl NamespacesUnsupported \<and>
   NamespacesUnsupported \<noteq> AlreadyForked (ContainerID ''a'' None)"
  by (simp add: fork_def)

text \<open>
  Claim C6. A fork whose \<open>namespaces\<close> is present and not zero fails with the namespaces
  failure; the state is unchanged: \<open>subprocess\<close> has not been called and the registry is
  as before.
\<close>

theorem fork_namespaces_unsupported:
  assumes "n \<noteq> 0"
  shows "fork os s c path argv inp out err flags env (Some n) hooks =
      (Inl NamespacesUnsupported, s) \<and>
    spawned (snd (fork os s c path argv inp out err flags env (Some n) hooks)) = spawned s \<and>
    pids (snd (fork os s c path argv inp out err flags env (Some n) hooks)) = pids s"
  using assms by (simp add: fork_def)

theorem fork_namespaces_unsupported_witness:
  "(1::int) \<noteq> 0 \<and>
   fork
     \<lparr>subprocess = (\<lambda>call. Inr 45), killtree = (\<lambda>call. Inr []),
      reap = (\<lambda>p. READY (Some 0)), systemd_enabled = False\<rparr>
     fresh (ContainerID ''a'' None) ''/bin/sh'' [''sh''] PIPE PIPE PIPE None None (Some 1) [] =
     (Inl NamespacesUnsupported, fresh) \<and>
   spawned fresh = []"
proof -
  have h: "(1::int) \<noteq> 0" by simp
  from h
    fork_namespaces_unsupported [OF h, of
      "\<lparr>subprocess = (\<lambda>call. Inr 45), killtree = (\<lambda>call. Inr []),
        reap = (\<lambda>p. READY (Some 0)), systemd_enabled = False\<rparr>"
      fresh "ContainerID ''a'' None" "''/bin/sh''" "[''sh'']" PIPE PIPE PIPE None None "[]"]
  show ?thesis by (simp add: fresh_def)
qed

text \<open>
  Claim C7. After a successful fork, status on the same identity answers a snapshot whose
  \<open>executor_pid\<close> is the pid that fork returned, and leaves the state as it is; status
  never changes the state.
\<close>

theorem fork_then_status:
  assumes "fork os s c path argv inp out err flags env ns hooks = (Inr h, s')"
  shows "fst (status s' c) = READY \<lparr>executor_pid = h\<rparr> \<and> snd (status s' c) = s' \<and>
    (\<forall>t d. snd (status t d) = t)"
  using fork_success [OF assms] by (simp add: status_registered status_state)

theorem fork_then_status_witness:
  "let os = \<lparr>subprocess = (\<lambda>call. Inr 46), killtree = (\<lambda>call. Inr []),
              reap = (\<lambda>p. READY (Some 0)), systemd_enabled = False\<rparr>;
       c = ContainerID ''a'' None;
       s' = \<lparr>pids = [c \<mapsto> 46],
             spawned = [\<lparr>sp_path = ''/bin/sh'', sp_argv = [''sh''], sp_in = PIPE, sp_out = PIPE,
               sp_err = PIPE, sp_setsid = SETSID, sp_flags = None, sp_environment = None,
               sp_parentHooks = []\<rparr>],
             killed = []\<rparr>
   in fork os fresh c ''/bin/sh'' [''sh''] PIPE PIPE PIPE None None None [] = (Inr 46, s') \<and>
      fst (status s' c) = READY \<lparr>executor_pid = 46\<rparr> \<and> snd (status s' c) = s'"
proof -
  let ?os = "\<lparr>subprocess = (\<lambda>call. Inr 46), killtree = (\<lambda>call. Inr []),
              reap = (\<lambda>p. READY (Some 0)), systemd_enabled = False\<rparr>"
  let ?c = "ContainerID ''a'' None"
  let ?s' = "\<lparr>pids = [?c \<mapsto> 46],
             spawned = [\<lparr>sp_path = ''/bin/sh'', sp_argv = [''sh''], sp_in = PIPE, sp_out = PIPE,
               sp_err = PIPE, sp_setsid = SETSID, sp_flags = None, sp_environment = None,
               sp_parentHooks = []\<rparr>],
             killed = []\<rparr>"
  have h: "fork ?os fresh ?c ''/bin/sh'' [''sh''] PIPE PIPE PIPE None None None [] = (Inr 46, ?s')"
    by (simp add: fork_def fresh_def contains_def put_def)
  from h fork_then_status [OF h]
  show ?thesis unfolding Let_def by blast
qed

text \<open>
  Claim C8. For an identity without registry entry, destroy fails with "Unknown
  container" and status fails with "Container does not exist!", both leaving the state
  as it is. For an identity with an entry, the first destroy removes the entry and a
  second destroy on the same identity fails with "Unknown container".
\<close>

theorem unknown_container_fails:
  "(pids s c = None \<longrightarrow>
      destroy os s c = (FAILED (UnknownContainer (value' c)), s) \<and>
      status s c = (FAILED ContainerDoesNotExist, s)) \<and>
   (pids s c \<noteq> None \<longrightarrow>
      pids (snd (destroy os s c)) c = None \<and>
      fst (destroy os' (snd (destroy os s c)) c) = FAILED (UnknownContainer (value' c)))"
  by (auto simp add: destroy_unknown status_unknown destroy_registered)

theorem unknown_container_fails_witness:
  "let os = \<lparr>subprocess = (\<lambda>call. Inr 47), killtree = (\<lambda>call. Inr []),
              reap = (\<lambda>p. READY (Some 9)), systemd_enabled = False\<rparr>;
       s = fresh\<lparr>pids := [ContainerID ''a'' None \<mapsto> 7]\<rparr>
   in pids s (ContainerID ''b'' None) = None \<and>
      fst (destroy os s (ContainerID ''b'' None)) = FAILED (UnknownContainer ''b'') \<and>
      fst (status s (ContainerID ''b'' None)) = FAILED ContainerDoesNotExist \<and>
      pids s (ContainerID ''a'' None) \<noteq> None \<and>
      fst (destroy os s (ContainerID ''a'' None)) = READY () \<and>
      fst (destroy os (snd (destroy os s (ContainerID ''a'' None))) (ContainerID ''a'' None)) =
        FAILED (UnknownContainer ''a'')"
proof -
  let ?os = "\<lparr>subprocess = (\<lambda>call. Inr 47), killtree = (\<lambda>call. Inr []),
              reap = (\<lambda>p. READY (Some 9)), systemd_enabled = False\<rparr>"
  let ?s = "fresh\<lparr>pids := [ContainerID ''a'' None \<mapsto> 7]\<rparr>"
  have h1: "pids ?s (ContainerID ''b'' None) = None" by (simp add: fresh_def)
  have h2: "pids ?s (ContainerID ''a'' None) \<noteq> None" by simp
  have h3: "fst (destroy ?os ?s (ContainerID ''a'' None)) = READY ()"
    by (simp add: destroy_def future_then_def destroy'_def)
  from h1 h2 h3
    unknown_container_fails [of ?s "ContainerID ''b'' None" ?os ?os]
    unknown_container_fails [of ?s "ContainerID ''a'' None" ?os ?os]
  show ?thesis unfolding Let_def by simp
qed

text \<open>
  Claim C10. A fork whose \<open>namespaces\<close> is present and zero does exactly what the same
  fork without \<open>namespaces\<close> does: it is not refused for namespaces and, on an identity
  without registry entry, goes on to call \<open>subprocess\<close>. Fork fails with the namespaces
  failure exactly when \<open>namespaces\<close> is present and not zero.
\<close>

theorem fork_zero_namespaces:
  "fork os s c path argv inp out err flags env (Some 0) hooks =
     fork os s c path argv inp out err flags env None hooks \<and>
   fst (fork os s c path argv inp out err flags env (Some 0) hooks) \<noteq>
     Inl NamespacesUnsupported \<and>
   (pids s c = None \<longrightarrow>
      length (spawned (snd (fork os s c path argv inp out err flags env (Some 0) hooks))) =
        length (spawned s) + 1) \<and>
   (fst (fork os s c path argv inp out err flags env ns hooks) = Inl NamespacesUnsupported) =
     (\<exists>n. ns = Some n \<and> n \<noteq> 0)"
proof -
  have eq: "fork os s c path argv inp out err flags env (Some 0) hooks =
     fork os s c path argv inp out err flags env None hooks"
    by (simp add: fork_def)
  have other: "fst (fork os s c path argv inp out err flags env ns' hooks) \<noteq>
      Inl NamespacesUnsupported" if "\<not> namespaces_requested ns'" for ns'
    using that
    by (simp add: fork_def namespaces_requested_def Let_def split: sum.splits)
  have z: "\<not> namespaces_requested (Some 0)"
    by (simp add: namespaces_requested_def)
  have spawn: "length (spawned (snd (fork os s c path argv inp out err flags env (Some 0) hooks))) =
      length (spawned s) + 1" if "pids s c = None"
    using fork_spawns [OF z that refl, of os path argv inp out err flags env hooks]
    by (simp split: sum.splits)
  have iff: "(fst (fork os s c path argv inp out err flags env ns hooks) =
      Inl NamespacesUnsupported) = namespaces_requested ns"
    using other [of ns] by (auto simp add: fork_rejected)
  from eq other [OF z] spawn iff show ?thesis
    by (simp add: namespaces_requested_iff)
qed

theorem fork_zero_namespaces_witness:
  "let os = \<lparr>subprocess = (\<lambda>call. Inr 48), killtree = (\<lambda>call. Inr []),
              reap = (\<lambda>p. READY (Some 0)), systemd_enabled = False\<rparr>;
       c = ContainerID ''a'' None
   in pids fresh c = None \<and>
      fst (fork os fresh c ''/bin/sh'' [''sh''] PIPE PIPE PIPE None None (Some 0) []) = Inr 48 \<and>
      length (spawned (snd
        (fork os fresh c ''/bin/sh'' [''sh''] PIPE PIPE PIPE None None (Some 0) []))) = 1 \<and>
      fork os fresh c ''/bin/sh'' [''sh''] PIPE PIPE PIPE None None (Some 0) [] =
        fork os fresh c ''/bin/sh'' [''sh''] PIPE PIPE PIPE None None None []"
proof -
  let ?os = "\<lparr>subprocess = (\<lambda>call. Inr 48), killtree = (\<lambda>call. Inr []),
              reap = (\<lambda>p. READY (Some 0)), systemd_enabled = False\<rparr>"
  let ?c = "ContainerID ''a'' None"
  have h: "pids fresh ?c = None" by (simp add: fresh_def)
  have r: "fst (fork ?os fresh ?c ''/bin/sh'' [''sh''] PIPE PIPE PIPE None None None []) = Inr 48"
    by (simp add: fork_def fresh_def contains_def)
  have l: "length (spawned fresh) = 0" by (simp add: fresh_def)
  note t = fork_zero_namespaces
    [of ?os fresh ?c "''/bin/sh''" "[''sh'']" PIPE PIPE PIPE None None "[]" None]
  from t have eq:
    "fork ?os fresh ?c ''/bin/sh'' [''sh''] PIPE PIPE PIPE None None (Some 0) [] =
     fork ?os fresh ?c ''/bin/sh'' [''sh''] PIPE PIPE PIPE None None None []"
    by (rule conjunct1)
  from t h have "length (spawned (snd
      (fork ?os fresh ?c ''/bin/sh'' [''sh''] PIPE PIPE PIPE None None (Some 0) []))) =
      length (spawned fresh) + 1"
    by blast
  with l have len: "length (spawned (snd
      (fork ?os fresh ?c ''/bin/sh'' [''sh''] PIPE PIPE PIPE None None (Some 0) []))) = 1"
    by simp
  from r have r0:
    "fst (fork ?os fresh ?c ''/bin/sh'' [''sh''] PIPE PIPE PIPE None None (Some 0) []) = Inr 48"
    by (simp only: eq)
  from h r0 len eq show ?thesis unfolding Let_def by blast
qed

end
